theory Spec2Isabelle
  imports Complex_Main "HOL-Library.Word" "HOL-Library.Stream"
begin

section \<open>Data model of \<open>jaxhpm/jax_loader.py\<close>\<close>

text \<open>
  Array values are modelled over the reals: a position or velocity array of shape \<open>(k, 2)\<close>
  is a list of pairs, a sprite is a two-dimensional array of bytes (\<open>uint8\<close>, the dtype
  of the zero canvas the sprite is written into), a rendered frame is a two-dimensional
  array of reals. The first array axis is the \<open>x\<close> axis of the source.
\<close>

datatype error = AttributeError | NegativeDimension

type_synonym sprite = "8 word list list"

type_synonym canvas = "real list list"

type_synonym vec2 = "real \<times> real"

text \<open>The state tuple \<open>(indexes, positions, velocs)\<close> and the carry \<open>(state, key)\<close>.\<close>

type_synonym state = "int list \<times> vec2 list \<times> vec2 list"

type_synonym 'k env_state = "state \<times> 'k"

text \<open>The attributes \<open>__init__\<close> sets on a \<open>JaxMNISTLoader\<close>.\<close>

record loader =
  width :: int
  height :: int
  mnist_width :: int
  mnist_height :: int
  lims :: "int \<times> int"
  images :: "sprite list"
  num_images :: int
  seq_len :: int
  nums_per_image :: int

text \<open>
  \<open>JaxMNISTLoader.__init__\<close>. The only statement that can raise is
  \<open>images.shape[0]\<close>, on the default \<open>images=None\<close>; every other argument is stored as
  it is given.
\<close>

definition JaxMNISTLoader :: "sprite list option \<Rightarrow> int \<Rightarrow> int \<Rightarrow> error + loader" where
  "JaxMNISTLoader imgs seq_len_arg num_mnist_per_mmnist =
     (case imgs of
        None \<Rightarrow> Inl AttributeError
      | Some im \<Rightarrow>
          Inr \<lparr> width = 64, height = 64,
                mnist_width = 28, mnist_height = 28,
                lims = (64 - 28, 64 - 28),
                images = im,
                num_images = int (length im),
                seq_len = seq_len_arg,
                nums_per_image = num_mnist_per_mmnist \<rparr>)"

section \<open>Array operations used by the loader\<close>

text \<open>Elementwise operations on arrays of shape \<open>(k, 2)\<close>.\<close>

definition arr_add :: "vec2 list \<Rightarrow> vec2 list \<Rightarrow> vec2 list" where
  "arr_add ps vs = map2 (\<lambda>(px, py) (vx, vy). (px + vx, py + vy)) ps vs"

definition arr_scale :: "real \<Rightarrow> vec2 list \<Rightarrow> vec2 list" where
  "arr_scale c vs = map (\<lambda>(vx, vy). (c * vx, c * vy)) vs"

text \<open>\<open>jax.lax.select(pred, on_true, on_false)\<close>, elementwise.\<close>

definition select :: "(bool \<times> bool) list \<Rightarrow> vec2 list \<Rightarrow> vec2 list \<Rightarrow> vec2 list" where
  "select pred on_true on_false =
     map2 (\<lambda>(bx, by) ((tx, ty), (fx, fy)). (if bx then tx else fx, if by then ty else fy))
       pred (zip on_true on_false)"

text \<open>\<open>astype(int)\<close> on a float: truncation towards zero.\<close>

definition astype_int :: "real \<Rightarrow> int" where
  "astype_int r = (if 0 \<le> r then \<lfloor>r\<rfloor> else \<lceil>r\<rceil>)"

definition jnp_zeros :: "nat \<Rightarrow> nat \<Rightarrow> 'a::zero list list" where
  "jnp_zeros w h = replicate w (replicate h 0)"

text \<open>
  Indexing an array by a traced integer, \<open>self.images[index]\<close>: a negative index counts from
  the end and an index out of range is clamped to the nearest valid one.
\<close>

definition getitem :: "'a list \<Rightarrow> int \<Rightarrow> 'a" where
  "getitem xs i =
     (let n = int (length xs);
          j = (if i < 0 then i + n else i)
      in xs ! nat (max 0 (min j (n - 1))))"

text \<open>
  \<open>jax.lax.dynamic_update_slice(operand, update, start)\<close>: the start indices are clamped so
  that the update fits into the operand, then the window is overwritten.
\<close>

definition dim2 :: "'a list list \<Rightarrow> nat" where
  "dim2 a = (case a of [] \<Rightarrow> 0 | r # _ \<Rightarrow> length r)"

definition dynamic_update_slice ::
  "'a list list \<Rightarrow> 'a list list \<Rightarrow> int \<times> int \<Rightarrow> 'a list list" where
  "dynamic_update_slice operand update start =
     (let x = nat (max 0 (min (fst start) (int (length operand) - int (length update))));
          y = nat (max 0 (min (snd start) (int (dim2 operand) - int (dim2 update))))
      in map (\<lambda>i. map (\<lambda>j.
             if x \<le> i \<and> i < x + length update \<and> y \<le> j \<and> j < y + dim2 update
             then update ! (i - x) ! (j - y)
             else operand ! i ! j) [0..<dim2 operand]) [0..<length operand])"

text \<open>\<open>canvas += fig\<close>: the byte canvas is promoted to float and added pixelwise.\<close>

definition canvas_add :: "canvas \<Rightarrow> sprite \<Rightarrow> canvas" where
  "canvas_add c fig = map2 (\<lambda>cr fr. map2 (\<lambda>cv fv. cv + real (unat fv)) cr fr) c fig"

section \<open>Compositor\<close>

text \<open>Lines 42 to 46 of \<open>_build_canvas\<close>: the integer offset a sprite is written at.\<close>

definition canvas_offset :: "loader \<Rightarrow> vec2 \<Rightarrow> int \<times> int" where
  "canvas_offset L position =
     (let (x, y) = (astype_int (fst position), astype_int (snd position));
          x = (if x < 0 then 0 else x);
          x = (if x > fst (lims L) then fst (lims L) else x);
          y = (if y < 0 then 0 else y);
          y = (if y > snd (lims L) then snd (lims L) else y)
      in (x, y))"

definition build_canvas :: "loader \<Rightarrow> int \<Rightarrow> vec2 \<Rightarrow> sprite" where
  "build_canvas L index position =
     (let (x, y) = canvas_offset L position;
          image = getitem (images L) index;
          canvas = jnp_zeros (nat (width L)) (nat (height L));
          fig = dynamic_update_slice canvas image (x, y)
      in fig)"

text \<open>The accumulation loop of \<open>_get_obsv\<close>, before clamping.\<close>

definition sum_canvases :: "loader \<Rightarrow> state \<Rightarrow> canvas" where
  "sum_canvases L st =
     (let (indexes, positions, _) = st;
          canvas = jnp_zeros (nat (width L)) (nat (height L))
      in fold (\<lambda>(i, p) canvas. canvas_add canvas (build_canvas L i p))
           (zip indexes positions) canvas)"

definition get_obsv :: "loader \<Rightarrow> state \<Rightarrow> canvas" where
  "get_obsv L st =
     (let canvas = sum_canvases L st;
          canvas = map (map (\<lambda>v. if v > 255 then 255 else v)) canvas;
          canvas = map (map (\<lambda>v. v / 255)) canvas
      in canvas)"

section \<open>PhysicsStep\<close>

text \<open>The reflection test \<open>(next_pos < -2) | (next_pos > self.lims[0] + 2)\<close>.\<close>

definition out_of_bounds :: "loader \<Rightarrow> vec2 list \<Rightarrow> (bool \<times> bool) list" where
  "out_of_bounds L next_pos =
     map (\<lambda>(nx, ny).
            (nx < - 2 \<or> nx > real_of_int (fst (lims L) + 2),
             ny < - 2 \<or> ny > real_of_int (fst (lims L) + 2))) next_pos"

definition step ::
  "loader \<Rightarrow> 'k env_state \<Rightarrow> 'a \<Rightarrow>
     'k env_state \<times> canvas \<times> real \<times> bool \<times> (string \<rightharpoonup> string)" where
  "step L env_state action =
     (let (st, key) = env_state;
          (indexes, positions, velocs) = st;
          next_pos = arr_add positions velocs;
          velocs = select (out_of_bounds L next_pos) (arr_scale (- 1) velocs) velocs;
          positions = arr_add positions velocs;
          next_state = (indexes, positions, velocs);
          next_env_state = (next_state, key);
          reward = 1;
          done = False
      in (next_env_state, get_obsv L next_state, reward, done, Map.empty))"

text \<open>The carry after \<open>n\<close> ticks, each with the same action.\<close>

definition steps :: "loader \<Rightarrow> nat \<Rightarrow> 'k env_state \<Rightarrow> 'a \<Rightarrow> 'k env_state" where
  "steps L n es a = ((\<lambda>e. fst (step L e a)) ^^ n) es"

definition indexes_of :: "'k env_state \<Rightarrow> int list" where
  "indexes_of es = fst (fst es)"

definition positions_of :: "'k env_state \<Rightarrow> vec2 list" where
  "positions_of es = fst (snd (fst es))"

definition velocs_of :: "'k env_state \<Rightarrow> vec2 list" where
  "velocs_of es = snd (snd (fst es))"

text \<open>Componentwise speed and speed magnitude of one velocity.\<close>

definition abs2 :: "vec2 \<Rightarrow> vec2" where
  "abs2 v = (\<bar>fst v\<bar>, \<bar>snd v\<bar>)"

definition speed_of :: "vec2 \<Rightarrow> real" where
  "speed_of v = sqrt ((fst v)\<^sup>2 + (snd v)\<^sup>2)"

text \<open>The velocity array after the \<open>select\<close> of \<open>step\<close>.\<close>

definition flipped :: "loader \<Rightarrow> vec2 list \<Rightarrow> vec2 list \<Rightarrow> vec2 list" where
  "flipped L positions velocs =
     select (out_of_bounds L (arr_add positions velocs)) (arr_scale (- 1) velocs) velocs"

section \<open>EpisodeInitializer\<close>

text \<open>
  The functions of \<open>jax.random\<close> the loader calls are parameters of the model, over an
  abstract type of keys: \<open>random.key(seed)\<close>, \<open>random.split(key)\<close> (a pair of keys),
  \<open>random.split(key, num=n)\<close>, \<open>random.uniform(key, shape=(n,))\<close>,
  \<open>random.uniform(key, shape=(n, 2), minval=0, maxval=m)\<close> with one upper bound per axis and
  \<open>random.randint(key, (n,), minval, maxval)\<close>.
\<close>

record 'k rng =
  random_key :: "int \<Rightarrow> 'k"
  random_split :: "'k \<Rightarrow> 'k \<times> 'k"
  random_split_num :: "'k \<Rightarrow> nat \<Rightarrow> 'k list"
  random_uniform :: "'k \<Rightarrow> nat \<Rightarrow> real list"
  random_uniform2 :: "'k \<Rightarrow> nat \<Rightarrow> vec2 \<Rightarrow> vec2 list"
  random_randint :: "'k \<Rightarrow> nat \<Rightarrow> int \<Rightarrow> int \<Rightarrow> int list"

text \<open>
  What the library documents of these functions: each returns an array of the shape it
  is asked for; uniform floats lie in \<open>[minval, maxval)\<close>, with \<open>[0, 1)\<close> the default;
  random integers lie in \<open>[minval, maxval)\<close>.
\<close>

definition rng_ok :: "'k rng \<Rightarrow> bool" where
  "rng_ok R \<longleftrightarrow>
     (\<forall>k n. length (random_split_num R k n) = n)
   \<and> (\<forall>k n. length (random_uniform R k n) = n
          \<and> (\<forall>u \<in> set (random_uniform R k n). 0 \<le> u \<and> u < 1))
   \<and> (\<forall>k n hx hy. length (random_uniform2 R k n (hx, hy)) = n
          \<and> (0 < hx \<and> 0 < hy \<longrightarrow>
               (\<forall>p \<in> set (random_uniform2 R k n (hx, hy)).
                   0 \<le> fst p \<and> fst p < hx \<and> 0 \<le> snd p \<and> snd p < hy)))
   \<and> (\<forall>k n lo hi. length (random_randint R k n lo hi) = n
          \<and> (lo < hi \<longrightarrow> (\<forall>x \<in> set (random_randint R k n lo hi). lo \<le> x \<and> x < hi)))"

text \<open>\<open>JaxMNISTLoader._reset\<close>.\<close>

definition reset_priv :: "'k rng \<Rightarrow> loader \<Rightarrow> 'k \<Rightarrow> 'k env_state" where
  "reset_priv R L key =
     (let (new_key, subkey) = random_split R key;
          direcs = map (\<lambda>u. pi * (u * 2 - 1))
                     (random_uniform R subkey (nat (nums_per_image L)));
          (new_key, subkey) = random_split R new_key;
          indexes = random_randint R subkey (nat (nums_per_image L)) 0 (num_images L);
          (new_key, subkey) = random_split R new_key;
          speeds = map (\<lambda>s. s + 2) (random_randint R subkey (nat (nums_per_image L)) 0 5);
          velocs = map (\<lambda>(direc, speed).
                          (real_of_int speed * cos direc, real_of_int speed * sin direc))
                     (zip direcs speeds);
          (new_key, subkey) = random_split R new_key;
          positions = random_uniform2 R subkey (nat (nums_per_image L))
                        (real_of_int (fst (lims L)), real_of_int (snd (lims L)));
          new_state = (indexes, positions, velocs)
      in (new_state, new_key))"

text \<open>The local variables \<open>direcs\<close> and \<open>speeds\<close> of \<open>_reset\<close>, as functions of its key.\<close>

definition reset_direcs :: "'k rng \<Rightarrow> loader \<Rightarrow> 'k \<Rightarrow> real list" where
  "reset_direcs R L key =
     map (\<lambda>u. pi * (u * 2 - 1))
       (random_uniform R (snd (random_split R key)) (nat (nums_per_image L)))"

definition reset_speeds :: "'k rng \<Rightarrow> loader \<Rightarrow> 'k \<Rightarrow> int list" where
  "reset_speeds R L key =
     map (\<lambda>s. s + 2)
       (random_randint R
          (snd (random_split R (fst (random_split R (fst (random_split R key))))))
          (nat (nums_per_image L)) 0 5)"

definition maybe_reset :: "'k rng \<Rightarrow> loader \<Rightarrow> 'k env_state \<Rightarrow> bool \<Rightarrow> 'k env_state" where
  "maybe_reset R L env_state done =
     (let key = snd env_state in if done then reset_priv R L key else env_state)"

definition reset :: "'k rng \<Rightarrow> loader \<Rightarrow> 'k \<Rightarrow> 'k env_state \<times> canvas" where
  "reset R L key =
     (let env_state = reset_priv R L key;
          initial_state = fst env_state
      in (env_state, get_obsv L initial_state))"

section \<open>SequenceBuilder\<close>

definition scan_func :: "loader \<Rightarrow> 'k env_state \<Rightarrow> 'x \<Rightarrow> 'k env_state \<times> canvas" where
  "scan_func L carry x = (case step L carry x of (new_carry, y, _, _, _) \<Rightarrow> (new_carry, y))"

text \<open>
  \<open>jax.lax.scan(f, init, xs, length)\<close> with \<open>xs = None\<close>: the function receives the same
  \<open>x\<close> at each of the \<open>length\<close> ticks, the carry is threaded through and the outputs are
  stacked in order.
\<close>

fun scan :: "('c \<Rightarrow> 'x \<Rightarrow> 'c \<times> 'y) \<Rightarrow> 'c \<Rightarrow> 'x \<Rightarrow> nat \<Rightarrow> 'c \<times> 'y list" where
  "scan f init x 0 = (init, [])"
| "scan f init x (Suc n) =
     (case f init x of (carry, y) \<Rightarrow>
        (case scan f carry x n of (final, ys) \<Rightarrow> (final, y # ys)))"

text \<open>
  \<open>build_seq\<close>. The library rejects a negative \<open>length\<close>; the model runs the scan
  \<open>nat (seq_len L)\<close> times and the theorems about it carry \<open>0 \<le> seq_len L\<close>.
\<close>

definition build_seq :: "'k rng \<Rightarrow> loader \<Rightarrow> 'k \<Rightarrow> canvas list" where
  "build_seq R L key =
     (case reset R L key of (init, _) \<Rightarrow>
        (case scan (scan_func L) init (None :: unit option) (nat (seq_len L)) of
           (_, ys) \<Rightarrow> ys))"

section \<open>BatchGenerator\<close>

record batch =
  batch_image :: "real list list list list list"
  batch_action :: "real list list list"
  batch_is_first :: "bool list list"

text \<open>The slice \<open>a[:n]\<close> of Python, where a negative \<open>n\<close> counts from the end.\<close>

definition py_prefix :: "'a list \<Rightarrow> int \<Rightarrow> 'a list" where
  "py_prefix xs n = (if n < 0 then take (nat (int (length xs) + n)) xs else take (nat n) xs)"

text \<open>\<open>einops.rearrange\<close> with \<open>"b w h 1 -> b w h"\<close> and with \<open>"b t w h -> b t w h 1"\<close>.\<close>

definition drop_channel :: "'a list list list list \<Rightarrow> 'a list list list" where
  "drop_channel a = map (map (map (\<lambda>px. px ! 0))) a"

definition add_channel :: "'a list list list list \<Rightarrow> 'a list list list list list" where
  "add_channel a = map (map (map (map (\<lambda>v. [v])))) a"

text \<open>
  One pass through the body of the \<open>while True\<close> loop of \<open>jaxMMNIST\<close>: the batch it yields
  and the key it keeps for the next pass. \<open>jax.vmap(build_seq)\<close> maps \<open>build_seq\<close> over the
  keys of the batch.
\<close>

definition loop_body ::
  "'k rng \<Rightarrow> loader \<Rightarrow> int \<Rightarrow> real list list list \<Rightarrow> bool list list \<Rightarrow> 'k \<Rightarrow> batch \<times> 'k" where
  "loop_body R jaxLoader batch_size action is_first next_key =
     (case random_split R next_key of (next_key, current_key) \<Rightarrow>
        (let batch_key = random_split_num R current_key (nat batch_size);
             batch_ys = map (build_seq R jaxLoader) batch_key;
             reshaped_ys = add_channel batch_ys
         in (\<lparr> batch_image = reshaped_ys, batch_action = action, batch_is_first = is_first \<rparr>,
             next_key)))"

text \<open>The generator as the stream of the batches it yields.\<close>

primcorec yield_loop ::
  "'k rng \<Rightarrow> loader \<Rightarrow> int \<Rightarrow> real list list list \<Rightarrow> bool list list \<Rightarrow> 'k \<Rightarrow> batch stream" where
  "shd (yield_loop R jaxLoader batch_size action is_first next_key) =
     fst (loop_body R jaxLoader batch_size action is_first next_key)"
| "stl (yield_loop R jaxLoader batch_size action is_first next_key) =
     yield_loop R jaxLoader batch_size action is_first
       (snd (loop_body R jaxLoader batch_size action is_first next_key))"

text \<open>
  \<open>jaxMMNIST\<close>. The dataset \<open>mnist\<close> is a parameter: the images of a split, of shape
  \<open>(b, w, h, 1)\<close>. Placement on a device does not change a value and is left out. The
  array constructor \<open>jnp.zeros\<close> rejects a negative dimension.
\<close>

definition jaxMMNIST ::
  "'k rng \<Rightarrow> (string \<Rightarrow> 8 word list list list list) \<Rightarrow> bool \<Rightarrow> int \<Rightarrow> int \<Rightarrow> int \<Rightarrow> int \<Rightarrow>
     error + batch stream" where
  "jaxMMNIST R mnist train batch_size num_source_mnist_images num_mnist_per_image seq_len_arg =
     (let mnist_images = (if train then mnist ''train'' else mnist ''test'');
          np_images = py_prefix mnist_images num_source_mnist_images;
          np_images = drop_channel np_images
      in case JaxMNISTLoader (Some np_images) seq_len_arg num_mnist_per_image of
           Inl e \<Rightarrow> Inl e
         | Inr jaxLoader \<Rightarrow>
             (let seed = 38;
                  next_key = random_key R seed
              in if batch_size < 0 \<or> seq_len_arg < 0 then Inl NegativeDimension
                 else
                   (let action = replicate (nat batch_size)
                                   (replicate (nat seq_len_arg) [0, 0]);
                        is_first = replicate (nat batch_size)
                                     (replicate (nat seq_len_arg) False);
                        is_first = is_first[0 := replicate (nat seq_len_arg) True]
                    in Inr (yield_loop R jaxLoader batch_size action is_first next_key))))"

section \<open>Shapes and pixels\<close>

text \<open>An array of shape \<open>(w, h)\<close>.\<close>

definition has_shape :: "nat \<Rightarrow> nat \<Rightarrow> 'a list list \<Rightarrow> bool" where
  "has_shape w h a \<longleftrightarrow> length a = w \<and> list_all (\<lambda>r. length r = h) a"

text \<open>Pixel \<open>(i, j)\<close> lies in the window \<open>_build_canvas\<close> writes the sprite of a digit to.\<close>

definition in_window :: "loader \<Rightarrow> vec2 \<Rightarrow> nat \<Rightarrow> nat \<Rightarrow> bool" where
  "in_window L position i j \<longleftrightarrow>
     fst (canvas_offset L position) \<le> int i
   \<and> int i < fst (canvas_offset L position) + mnist_width L
   \<and> snd (canvas_offset L position) \<le> int j
   \<and> int j < snd (canvas_offset L position) + mnist_height L"

text \<open>The summed intensity of pixel \<open>(i, j)\<close> over the digits of a state.\<close>

definition summed_intensity :: "loader \<Rightarrow> state \<Rightarrow> nat \<Rightarrow> nat \<Rightarrow> real" where
  "summed_intensity L st i j =
     (case st of (indexes, positions, _) \<Rightarrow>
        sum_list (map (\<lambda>(idx, p). real (unat (build_canvas L idx p ! i ! j)))
                    (zip indexes positions)))"

text \<open>An array of shape \<open>(b, t, w, h, c)\<close>.\<close>

definition has_shape5 ::
  "nat \<Rightarrow> nat \<Rightarrow> nat \<Rightarrow> nat \<Rightarrow> nat \<Rightarrow> 'a list list list list list \<Rightarrow> bool" where
  "has_shape5 b t w h c a \<longleftrightarrow>
     length a = b
   \<and> list_all (\<lambda>sq. length sq = t
        \<and> list_all (\<lambda>fr. length fr = w
             \<and> list_all (\<lambda>row. length row = h
                  \<and> list_all (\<lambda>px. length px = c) row) fr) sq) a"

section \<open>Concrete inputs\<close>

text \<open>One sprite of constant intensity 200, and the loader built from it.\<close>

definition demo_images :: "sprite list" where
  "demo_images = [replicate 28 (replicate 28 200)]"

definition demo_loader :: loader where
  "demo_loader =
     \<lparr> width = 64, height = 64, mnist_width = 28, mnist_height = 28, lims = (36, 36),
       images = demo_images, num_images = 1, seq_len = 5, nums_per_image = 2 \<rparr>"

text \<open>A generator over natural-number keys whose every uniform draw is 0.\<close>

definition zero_rng :: "nat rng" where
  "zero_rng =
     \<lparr> random_key = (\<lambda>seed. nat \<bar>seed\<bar>),
       random_split = (\<lambda>k. (2 * k + 1, 2 * k + 2)),
       random_split_num = (\<lambda>k n. map (\<lambda>i. k * n + i) [0..<n]),
       random_uniform = (\<lambda>k n. replicate n 0),
       random_uniform2 = (\<lambda>k n m. replicate n (0, 0)),
       random_randint = (\<lambda>k n lo hi. replicate n lo) \<rparr>"

text \<open>A dataset with one image of constant intensity 200 in each split.\<close>

definition demo_mnist :: "string \<Rightarrow> 8 word list list list list" where
  "demo_mnist split = [replicate 28 (replicate 28 [200])]"

definition demo_batches :: "batch stream" where
  "demo_batches =
     yield_loop zero_rng demo_loader 2
       (replicate 2 (replicate 5 [0, 0]))
       ((replicate 2 (replicate 5 False))[0 := replicate 5 True])
       (random_key zero_rng 38)"

section \<open>Facts about the array operations\<close>

lemma arr_add_length: "length (arr_add ps vs) = min (length ps) (length vs)"
  by (simp add: arr_add_def)

lemma arr_add_nth:
  "i < length ps \<Longrightarrow> i < length vs \<Longrightarrow>
   arr_add ps vs ! i = (fst (ps ! i) + fst (vs ! i), snd (ps ! i) + snd (vs ! i))"
  by (simp add: arr_add_def split: prod.splits)

lemma flipped_length:
  "length positions = length velocs \<Longrightarrow> length (flipped L positions velocs) = length velocs"
  by (simp add: flipped_def select_def out_of_bounds_def arr_add_def arr_scale_def)

lemma flipped_nth:
  assumes "length positions = length velocs" and "i < length velocs"
  shows "flipped L positions velocs ! i =
     (if fst (positions ! i) + fst (velocs ! i) < - 2
         \<or> fst (positions ! i) + fst (velocs ! i) > real_of_int (fst (lims L) + 2)
      then - fst (velocs ! i) else fst (velocs ! i),
      if snd (positions ! i) + snd (velocs ! i) < - 2
         \<or> snd (positions ! i) + snd (velocs ! i) > real_of_int (fst (lims L) + 2)
      then - snd (velocs ! i) else snd (velocs ! i))"
  using assms
  by (simp add: flipped_def select_def out_of_bounds_def arr_add_def arr_scale_def
      split: prod.splits)

lemma step_unfold:
  "step L ((indexes, positions, velocs), key) a =
     (((indexes, arr_add positions (flipped L positions velocs), flipped L positions velocs), key),
      get_obsv L (indexes, arr_add positions (flipped L positions velocs), flipped L positions velocs),
      1, False, Map.empty)"
  by (simp add: step_def flipped_def Let_def)

lemma flipped_abs2:
  assumes "length positions = length velocs"
  shows "map abs2 (flipped L positions velocs) = map abs2 velocs"
proof (rule nth_equalityI)
  show "length (map abs2 (flipped L positions velocs)) = length (map abs2 velocs)"
    using assms by (simp add: flipped_length)
next
  fix i assume "i < length (map abs2 (flipped L positions velocs))"
  then have i: "i < length velocs" using assms by (simp add: flipped_length)
  then show "map abs2 (flipped L positions velocs) ! i = map abs2 velocs ! i"
    using assms by (simp add: flipped_length flipped_nth [OF assms i] abs2_def)
qed

lemma speed_of_abs2: "speed_of (abs2 v) = speed_of v"
  by (simp add: speed_of_def abs2_def)

lemma map_speed_of: "map speed_of vs = map speed_of (map abs2 vs)"
  by (simp add: speed_of_abs2)

lemma step_shape:
  assumes "length (positions_of es) = length (velocs_of es)"
  shows "length (positions_of (fst (step L es a))) = length (velocs_of (fst (step L es a)))
       \<and> map abs2 (velocs_of (fst (step L es a))) = map abs2 (velocs_of es)"
proof -
  obtain indexes positions velocs key where es: "es = ((indexes, positions, velocs), key)"
    by (metis prod.exhaust)
  have len: "length positions = length velocs"
    using assms by (simp add: es positions_of_def velocs_of_def)
  show ?thesis
    using len
    by (simp add: es step_unfold positions_of_def velocs_of_def arr_add_length
        flipped_length flipped_abs2)
qed

lemma steps_shape:
  assumes "length (positions_of es) = length (velocs_of es)"
  shows "length (positions_of (steps L n es a)) = length (velocs_of (steps L n es a))
       \<and> map abs2 (velocs_of (steps L n es a)) = map abs2 (velocs_of es)"
proof (induction n)
  case 0
  show ?case using assms by (simp add: steps_def)
next
  case (Suc n)
  have "steps L (Suc n) es a = fst (step L (steps L n es a) a)"
    by (simp add: steps_def)
  then show ?case
    using step_shape [of "steps L n es a" L a] Suc.IH by simp
qed

lemma demo_loader_init: "JaxMNISTLoader (Some demo_images) 5 2 = Inr demo_loader"
  by (simp add: JaxMNISTLoader_def demo_loader_def demo_images_def)

lemma scan_length: "length (snd (scan f c x n)) = n"
proof (induction n arbitrary: c)
  case 0
  show ?case by simp
next
  case (Suc n)
  obtain c' y where f: "f c x = (c', y)" by (cases "f c x")
  obtain final ys where s: "scan f c' x n = (final, ys)" by (cases "scan f c' x n")
  show ?case using Suc.IH [of c'] by (simp add: f s)
qed

lemma scan_nth:
  "i < n \<Longrightarrow> snd (scan f c x n) ! i = snd (f (((\<lambda>c. fst (f c x)) ^^ i) c) x)"
proof (induction n arbitrary: c i)
  case 0
  then show ?case by simp
next
  case (Suc n)
  obtain c' y where f: "f c x = (c', y)" by (cases "f c x")
  obtain final ys where s: "scan f c' x n = (final, ys)" by (cases "scan f c' x n")
  show ?case
  proof (cases i)
    case 0
    then show ?thesis by (simp add: f s)
  next
    case (Suc j)
    then have j: "j < n" using Suc.prems by simp
    have "snd (scan f c x (Suc n)) ! i = snd (scan f c' x n) ! j"
      by (simp add: f s Suc)
    also have "\<dots> = snd (f (((\<lambda>c. fst (f c x)) ^^ j) c') x)"
      by (rule Suc.IH [OF j])
    also have "((\<lambda>c. fst (f c x)) ^^ j) c' = ((\<lambda>c. fst (f c x)) ^^ i) c"
      unfolding Suc by (simp only: funpow_Suc_right o_apply f fst_conv)
    finally show ?thesis .
  qed
qed

lemma scan_func_fst: "fst (scan_func L c x) = fst (step L c x)"
  by (simp add: scan_func_def split: prod.splits)

lemma scan_func_snd: "snd (scan_func L c x) = fst (snd (step L c x))"
  by (simp add: scan_func_def split: prod.splits)

lemma step_frame: "fst (snd (step L es a)) = get_obsv L (fst (fst (step L es a)))"
  by (cases es) (auto simp: step_def Let_def split: prod.splits)

lemma build_seq_unfold:
  "build_seq R L key = snd (scan (scan_func L) (fst (reset R L key)) (None :: unit option) (nat (seq_len L)))"
  by (simp add: build_seq_def case_prod_beta)

lemma direc_range:
  assumes "0 \<le> u" and "u < 1"
  shows "- pi \<le> pi * (u * 2 - 1) \<and> pi * (u * 2 - 1) < pi"
proof -
  have "pi * (u * 2 - 1) = pi * (2 * u) - pi" by (simp add: algebra_simps)
  moreover have "0 \<le> pi * (2 * u)" using assms by simp
  moreover have "pi * (2 * u) < pi * 2" using assms pi_gt_zero by simp
  ultimately show ?thesis by linarith
qed

lemma rng_ok_zero_rng: "rng_ok zero_rng"
  by (simp add: rng_ok_def zero_rng_def)

lemma reset_priv_unfold:
  "reset_priv R L key =
     ((random_randint R (snd (random_split R (fst (random_split R key))))
         (nat (nums_per_image L)) 0 (num_images L),
       random_uniform2 R
         (snd (random_split R (fst (random_split R (fst (random_split R
            (fst (random_split R key))))))))
         (nat (nums_per_image L)) (real_of_int (fst (lims L)), real_of_int (snd (lims L))),
       map (\<lambda>(direc, speed). (real_of_int speed * cos direc, real_of_int speed * sin direc))
         (zip (reset_direcs R L key) (reset_speeds R L key))),
      fst (random_split R (fst (random_split R (fst (random_split R
            (fst (random_split R key))))))))"
  by (simp add: reset_priv_def reset_direcs_def reset_speeds_def Let_def case_prod_beta)

lemma reset_fst: "fst (reset R L key) = reset_priv R L key"
  by (simp add: reset_def Let_def)

lemma has_shape_nth: "has_shape w h a \<Longrightarrow> i < w \<Longrightarrow> length (a ! i) = h"
  by (simp add: has_shape_def list_all_length)

lemma has_shape_length: "has_shape w h a \<Longrightarrow> length a = w"
  by (simp add: has_shape_def)

lemma has_shape_jnp_zeros: "has_shape w h (jnp_zeros w h)"
  by (simp add: has_shape_def jnp_zeros_def list_all_length)

lemma dim2_jnp_zeros: "0 < w \<Longrightarrow> dim2 (jnp_zeros w h) = h"
  by (cases w) (simp_all add: dim2_def jnp_zeros_def)

lemma dim2_has_shape: "has_shape w h a \<Longrightarrow> 0 < w \<Longrightarrow> dim2 a = h"
  by (cases a) (simp_all add: dim2_def has_shape_def)

lemma has_shape_dynamic_update_slice:
  "has_shape (length operand) (dim2 operand) (dynamic_update_slice operand update start)"
  by (simp add: has_shape_def dynamic_update_slice_def Let_def list_all_length)

lemma dynamic_update_slice_nth:
  assumes "i < length operand" and "j < dim2 operand"
  shows "dynamic_update_slice operand update start ! i ! j =
     (let x = nat (max 0 (min (fst start) (int (length operand) - int (length update))));
          y = nat (max 0 (min (snd start) (int (dim2 operand) - int (dim2 update))))
      in if x \<le> i \<and> i < x + length update \<and> y \<le> j \<and> j < y + dim2 update
         then update ! (i - x) ! (j - y)
         else operand ! i ! j)"
  using assms by (simp add: dynamic_update_slice_def Let_def)

lemma has_shape_build_canvas:
  "has_shape (nat (width L)) (nat (height L)) (build_canvas L idx p)"
proof (cases "0 < nat (width L)")
  case True
  have "has_shape (length (jnp_zeros (nat (width L)) (nat (height L)) :: sprite))
          (dim2 (jnp_zeros (nat (width L)) (nat (height L)) :: sprite))
          (build_canvas L idx p)"
    unfolding build_canvas_def Let_def case_prod_beta
    by (rule has_shape_dynamic_update_slice)
  then show ?thesis
    using True by (simp add: dim2_jnp_zeros) (simp add: jnp_zeros_def)
next
  case False
  then have "length (build_canvas L idx p) = 0"
    by (simp add: build_canvas_def Let_def case_prod_beta dynamic_update_slice_def jnp_zeros_def)
  then show ?thesis using False by (simp add: has_shape_def)
qed

lemma has_shape_canvas_add:
  "has_shape w h c \<Longrightarrow> has_shape w h f \<Longrightarrow> has_shape w h (canvas_add c f)"
  by (simp add: has_shape_def canvas_add_def list_all_length)

lemma canvas_add_nth:
  "has_shape w h c \<Longrightarrow> has_shape w h f \<Longrightarrow> i < w \<Longrightarrow> j < h \<Longrightarrow>
   canvas_add c f ! i ! j = c ! i ! j + real (unat (f ! i ! j))"
  by (simp add: has_shape_def canvas_add_def list_all_length)

lemma fold_canvas_add:
  assumes "has_shape (nat (width L)) (nat (height L)) c"
  shows "has_shape (nat (width L)) (nat (height L))
           (fold (\<lambda>(i, p) canvas. canvas_add canvas (build_canvas L i p)) zs c)
       \<and> (i < nat (width L) \<longrightarrow> j < nat (height L) \<longrightarrow>
            fold (\<lambda>(i, p) canvas. canvas_add canvas (build_canvas L i p)) zs c ! i ! j
              = c ! i ! j
                + sum_list (map (\<lambda>(idx, p). real (unat (build_canvas L idx p ! i ! j))) zs))"
  using assms
proof (induction zs arbitrary: c)
  case Nil
  then show ?case by simp
next
  case (Cons z zs)
  obtain idx p where z: "z = (idx, p)" by (cases z)
  have sh: "has_shape (nat (width L)) (nat (height L)) (canvas_add c (build_canvas L idx p))"
    using Cons.prems has_shape_build_canvas by (rule has_shape_canvas_add)
  show ?case
    using Cons.IH [OF sh] Cons.prems
    by (simp add: z canvas_add_nth [OF Cons.prems has_shape_build_canvas])
qed

lemma jnp_zeros_nth: "i < w \<Longrightarrow> j < h \<Longrightarrow> jnp_zeros w h ! i ! j = 0"
  by (simp add: jnp_zeros_def)

lemma has_shape_sum_canvases:
  "has_shape (nat (width L)) (nat (height L)) (sum_canvases L st)"
  using fold_canvas_add [OF has_shape_jnp_zeros]
  by (simp add: sum_canvases_def Let_def case_prod_beta)

lemma sum_canvases_nth:
  assumes "i < nat (width L)" and "j < nat (height L)"
  shows "sum_canvases L st ! i ! j = summed_intensity L st i j"
  using fold_canvas_add [OF has_shape_jnp_zeros, of L "zip (fst st) (fst (snd st))" i j] assms
  by (simp add: sum_canvases_def summed_intensity_def Let_def case_prod_beta jnp_zeros_nth)

lemma has_shape_get_obsv:
  "has_shape (nat (width L)) (nat (height L)) (get_obsv L st)"
  using has_shape_sum_canvases [of L st]
  by (simp add: get_obsv_def Let_def has_shape_def list_all_length)

lemma get_obsv_nth:
  assumes "i < nat (width L)" and "j < nat (height L)"
  shows "get_obsv L st ! i ! j =
     (if summed_intensity L st i j > 255 then 255 else summed_intensity L st i j) / 255"
proof -
  have l: "length (sum_canvases L st) = nat (width L)"
    using has_shape_sum_canvases by (rule has_shape_length)
  have r: "length (sum_canvases L st ! i) = nat (height L)"
    using has_shape_sum_canvases assms(1) by (rule has_shape_nth)
  show ?thesis
    using assms l r by (simp add: get_obsv_def Let_def sum_canvases_nth)
qed

lemma summed_intensity_nonneg: "0 \<le> summed_intensity L st i j"
  by (auto simp del: of_nat_unat simp: summed_intensity_def split: prod.splits
      intro!: sum_list_nonneg)

lemma getitem_in_set:
  assumes "xs \<noteq> []"
  shows "getitem xs i \<in> set xs"
proof -
  have "0 < length xs" using assms by simp
  then have "nat (max 0 (min j (int (length xs) - 1))) < length xs" for j
    by arith
  then show ?thesis
    unfolding getitem_def Let_def by (rule nth_mem)
qed

lemma canvas_offset_fst:
  "fst (canvas_offset L p) = min (fst (lims L)) (max 0 (astype_int (fst p)))"
  by (simp add: canvas_offset_def Let_def min_def max_def)

lemma canvas_offset_snd:
  "snd (canvas_offset L p) = min (snd (lims L)) (max 0 (astype_int (snd p)))"
  by (simp add: canvas_offset_def Let_def min_def max_def)

lemma loader_fields:
  assumes "JaxMNISTLoader (Some im) sl n = Inr L"
  shows "width L = 64" "height L = 64" "mnist_width L = 28" "mnist_height L = 28"
    "lims L = (36, 36)" "images L = im" "num_images L = int (length im)"
    "seq_len L = sl" "nums_per_image L = n"
  using assms by (auto simp: JaxMNISTLoader_def)

lemma build_canvas_nth:
  assumes L: "JaxMNISTLoader (Some im) sl n = Inr L"
    and im: "im \<noteq> []"
    and sh: "\<forall>s \<in> set im. has_shape (nat (mnist_width L)) (nat (mnist_height L)) s"
    and i: "i < 64" and j: "j < 64"
  shows "build_canvas L idx p ! i ! j =
     (if in_window L p i j
      then getitem im idx ! (i - nat (fst (canvas_offset L p)))
                          ! (j - nat (snd (canvas_offset L p)))
      else 0)"
proof -
  note f = loader_fields [OF L]
  let ?img = "getitem im idx"
  let ?z = "jnp_zeros 64 64 :: sprite"
  have "has_shape 28 28 ?img"
    using sh getitem_in_set [OF im, of idx] by (simp add: f)
  then have li: "length ?img = 28" and di: "dim2 ?img = 28"
    by (simp_all add: has_shape_length dim2_has_shape)
  have lz: "length ?z = 64"
    by (simp add: jnp_zeros_def)
  have dz: "dim2 ?z = 64"
    by (rule dim2_jnp_zeros) simp
  have cx: "0 \<le> fst (canvas_offset L p)" "fst (canvas_offset L p) \<le> 36"
    and cy: "0 \<le> snd (canvas_offset L p)" "snd (canvas_offset L p) \<le> 36"
    by (simp_all add: canvas_offset_fst canvas_offset_snd f)
  have b: "build_canvas L idx p = dynamic_update_slice ?z ?img (canvas_offset L p)"
    by (simp add: build_canvas_def Let_def case_prod_beta f)
  have "build_canvas L idx p ! i ! j =
     (if nat (fst (canvas_offset L p)) \<le> i \<and> i < nat (fst (canvas_offset L p)) + 28
         \<and> nat (snd (canvas_offset L p)) \<le> j \<and> j < nat (snd (canvas_offset L p)) + 28
      then ?img ! (i - nat (fst (canvas_offset L p))) ! (j - nat (snd (canvas_offset L p)))
      else ?z ! i ! j)"
    unfolding b using cx cy i j
    by (simp add: dynamic_update_slice_nth lz dz li di Let_def)
  moreover have "in_window L p i j \<longleftrightarrow>
      nat (fst (canvas_offset L p)) \<le> i \<and> i < nat (fst (canvas_offset L p)) + 28
    \<and> nat (snd (canvas_offset L p)) \<le> j \<and> j < nat (snd (canvas_offset L p)) + 28"
    using cx cy by (auto simp: in_window_def f)
  moreover have "?z ! i ! j = 0" using i j by (simp add: jnp_zeros_nth)
  ultimately show ?thesis by simp
qed

lemma sum_list_nonzero:
  fixes xs :: "real list"
  shows "sum_list xs \<noteq> 0 \<Longrightarrow> \<exists>x \<in> set xs. x \<noteq> 0"
  by (induction xs) auto

lemma demo_images_shape:
  "\<forall>s \<in> set demo_images.
      has_shape (nat (mnist_width demo_loader)) (nat (mnist_height demo_loader)) s"
  by (simp add: demo_images_def demo_loader_def has_shape_def list_all_length)

lemma demo_images_nonempty: "demo_images \<noteq> []"
  by (simp add: demo_images_def)

lemma demo_sprite_nth: "i < 28 \<Longrightarrow> j < 28 \<Longrightarrow> getitem demo_images idx ! i ! j = 200"
  by (simp add: getitem_def demo_images_def Let_def)

lemma demo_canvas_origin:
  "build_canvas demo_loader 0 (0, 0) ! 0 ! 0 = 200"
proof -
  have off: "canvas_offset demo_loader (0, 0) = (0, 0)"
    by (simp add: canvas_offset_def astype_int_def demo_loader_def Let_def)
  show ?thesis
    using build_canvas_nth [OF demo_loader_init demo_images_nonempty demo_images_shape,
        of 0 0 0 "(0, 0)"]
    by (simp add: off in_window_def loader_fields [OF demo_loader_init] demo_sprite_nth)
qed

lemma yield_loop_snth:
  "yield_loop R L bs a f k !! m =
     fst (loop_body R L bs a f (((\<lambda>k. snd (loop_body R L bs a f k)) ^^ m) k))"
proof (induction m arbitrary: k)
  case 0
  show ?case by simp
next
  case (Suc m)
  have "yield_loop R L bs a f k !! Suc m
          = yield_loop R L bs a f (snd (loop_body R L bs a f k)) !! m"
    by simp
  also have "\<dots> = fst (loop_body R L bs a f
        (((\<lambda>k. snd (loop_body R L bs a f k)) ^^ m) (snd (loop_body R L bs a f k))))"
    by (rule Suc.IH)
  finally show ?case by (simp only: funpow_Suc_right o_apply)
qed

lemma loop_body_batch:
  "batch_action (fst (loop_body R L bs a f k)) = a"
  "batch_is_first (fst (loop_body R L bs a f k)) = f"
  "batch_image (fst (loop_body R L bs a f k)) =
     add_channel (map (build_seq R L)
       (random_split_num R (snd (random_split R k)) (nat bs)))"
  by (simp_all add: loop_body_def Let_def case_prod_beta)

lemma build_seq_length: "length (build_seq R L key) = nat (seq_len L)"
  by (simp add: build_seq_unfold scan_length)

lemma build_seq_frame_shape:
  assumes "fr \<in> set (build_seq R L key)"
  shows "has_shape (nat (width L)) (nat (height L)) fr"
proof -
  obtain i where i: "i < nat (seq_len L)" and fr: "fr = build_seq R L key ! i"
    using assms by (auto simp: in_set_conv_nth build_seq_length)
  have "fr = fst (snd (step L (((\<lambda>c. fst (scan_func L c (None :: unit option))) ^^ i)
                 (fst (reset R L key))) (None :: unit option)))"
    unfolding fr build_seq_unfold
    using scan_nth [OF i, of "scan_func L" "fst (reset R L key)" None]
    by (simp add: scan_func_snd)
  then show ?thesis
    by (simp add: step_frame has_shape_get_obsv)
qed

lemma has_shape5_add_channel:
  assumes "length a = b"
    and "\<And>sq. sq \<in> set a \<Longrightarrow> length sq = t"
    and "\<And>sq fr. sq \<in> set a \<Longrightarrow> fr \<in> set sq \<Longrightarrow> has_shape w h fr"
  shows "has_shape5 b t w h 1 (add_channel a)"
  using assms
  by (auto simp: has_shape5_def add_channel_def list_all_iff has_shape_def)

lemma jaxMMNIST_Inr:
  assumes "jaxMMNIST R mnist train bs ns npi sl = Inr s"
  shows "0 \<le> bs \<and> 0 \<le> sl
    \<and> (\<exists>L im. JaxMNISTLoader (Some im) sl npi = Inr L
          \<and> s = yield_loop R L bs
                 (replicate (nat bs) (replicate (nat sl) [0, 0]))
                 ((replicate (nat bs) (replicate (nat sl) False))[0 := replicate (nat sl) True])
                 (random_key R 38))"
  using assms
  by (auto simp: jaxMMNIST_def Let_def JaxMNISTLoader_def split: if_splits)

lemma demo_jaxMMNIST: "jaxMMNIST zero_rng demo_mnist True 2 1 2 5 = Inr demo_batches"
  by (simp add: jaxMMNIST_def demo_mnist_def demo_batches_def py_prefix_def drop_channel_def
      JaxMNISTLoader_def demo_loader_def demo_images_def Let_def)

section \<open>Frame conditions of a step\<close>

text \<open>
  C8. The action argument of \<open>step\<close> has no influence on its result: two calls on the
  same carry with any two actions return the same tuple, whose reward is 1, whose done
  flag is false and whose info dictionary is empty.
\<close>

theorem step_ignores_action:
  "step L es a1 = step L es a2
   \<and> fst (snd (snd (step L es a1))) = 1
   \<and> fst (snd (snd (snd (step L es a1)))) = False
   \<and> snd (snd (snd (snd (step L es a1)))) = Map.empty"
  by (simp add: step_def Let_def split: prod.splits)

text \<open>
  C9. The carry returned by \<open>step\<close> holds the digit indices and the random key of the
  carry it was given, unchanged.
\<close>

theorem step_keeps_indexes_and_key:
  "fst (fst (fst (step L ((indexes, positions, velocs), key) a))) = indexes
   \<and> snd (fst (step L ((indexes, positions, velocs), key) a)) = key"
  by (simp add: step_def Let_def)

section \<open>Reflection\<close>

text \<open>
  C1. For a loader built by the constructor and a carry whose position and velocity
  arrays have the same shape, \<open>step\<close> predicts \<open>positions + velocs\<close> and, for each digit
  and each axis on its own, negates the velocity component exactly when the predicted
  component is below \<open>-2\<close> or above \<open>(canvas_dim - sprite_dim) + 2\<close>; the new position is the
  old position plus the new velocity.
\<close>

theorem step_reflects:
  assumes L: "JaxMNISTLoader (Some im) sl n = Inr L"
    and len: "length positions = length velocs"
    and i: "i < length velocs"
    and st: "fst (step L ((indexes, positions, velocs), key) a)
               = ((indexes', positions', velocs'), key')"
  shows "length velocs' = length velocs \<and> length positions' = length positions
    \<and> fst (velocs' ! i) =
        (if fst (positions ! i) + fst (velocs ! i) < - 2
            \<or> fst (positions ! i) + fst (velocs ! i) > real_of_int (width L - mnist_width L) + 2
         then - fst (velocs ! i) else fst (velocs ! i))
    \<and> snd (velocs' ! i) =
        (if snd (positions ! i) + snd (velocs ! i) < - 2
            \<or> snd (positions ! i) + snd (velocs ! i) > real_of_int (height L - mnist_height L) + 2
         then - snd (velocs ! i) else snd (velocs ! i))
    \<and> positions' ! i =
        (fst (positions ! i) + fst (velocs' ! i), snd (positions ! i) + snd (velocs' ! i))"
proof -
  have lims: "fst (lims L) = 36" "width L - mnist_width L = 36" "height L - mnist_height L = 36"
    using L by (auto simp: JaxMNISTLoader_def)
  have v: "velocs' = flipped L positions velocs"
    and p: "positions' = arr_add positions velocs'"
    using st by (auto simp: step_unfold)
  have lv: "length velocs' = length velocs"
    using len by (simp add: v flipped_length)
  have lp: "length positions' = length positions"
    using len lv by (simp add: p arr_add_length)
  have nth: "velocs' ! i = flipped L positions velocs ! i" by (simp add: v)
  have pn: "positions' ! i =
        (fst (positions ! i) + fst (velocs' ! i), snd (positions ! i) + snd (velocs' ! i))"
    unfolding p using len lv i by (simp add: arr_add_nth)
  show ?thesis
    using lv lp pn by (simp add: nth flipped_nth [OF len i] lims)
qed

theorem step_reflects_witness:
  "JaxMNISTLoader (Some demo_images) 5 2 = Inr demo_loader
   \<and> fst (step demo_loader (([0], [(35, 10)], [(4, - 3)]), ()) ())
       = (([0], [(31, 7)], [(- 4, - 3)]), ())
   \<and> fst ([(- 4 :: real, - 3 :: real)] ! 0) = - fst ([(4 :: real, - 3 :: real)] ! 0)"
proof -
  have st: "fst (step demo_loader (([0], [(35, 10)], [(4, - 3)]), ()) ())
       = (([0], [(31, 7)], [(- 4, - 3)]), ())"
    by (simp add: step_unfold flipped_def select_def out_of_bounds_def arr_add_def
        arr_scale_def demo_loader_def)
  have len: "length [(35 :: real, 10 :: real)] = length [(4 :: real, - 3 :: real)]" by simp
  have i: "0 < length [(4 :: real, - 3 :: real)]" by simp
  show ?thesis
    using step_reflects [OF demo_loader_init len i st] demo_loader_init st by simp
qed

section \<open>Speed is invariant\<close>

text \<open>
  C10. For a carry whose position and velocity arrays have the same shape, each velocity
  component after a step has the absolute value it had before; so after any number of
  steps every digit has the componentwise speed, and the speed magnitude, it started with.
\<close>

theorem step_preserves_speed:
  assumes "length positions = length velocs"
  shows "map abs2 (velocs_of (fst (step L ((indexes, positions, velocs), key) a))) = map abs2 velocs
    \<and> map abs2 (velocs_of (steps L n ((indexes, positions, velocs), key) a)) = map abs2 velocs
    \<and> map speed_of (velocs_of (steps L n ((indexes, positions, velocs), key) a))
        = map speed_of velocs"
proof -
  let ?es = "((indexes, positions, velocs), key)"
  have w: "length (positions_of ?es) = length (velocs_of ?es)"
    using assms by (simp add: positions_of_def velocs_of_def)
  have v: "velocs_of ?es = velocs" by (simp add: velocs_of_def)
  have one: "map abs2 (velocs_of (fst (step L ?es a))) = map abs2 velocs"
    using step_shape [OF w, of L a] v by simp
  have many: "map abs2 (velocs_of (steps L n ?es a)) = map abs2 velocs"
    using steps_shape [OF w, of L n a] v by simp
  have "map speed_of (velocs_of (steps L n ?es a))
          = map speed_of (map abs2 (velocs_of (steps L n ?es a)))"
    by (rule map_speed_of)
  also have "\<dots> = map speed_of (map abs2 velocs)" by (simp only: many)
  also have "\<dots> = map speed_of velocs" by (rule map_speed_of [symmetric])
  finally show ?thesis using one many by simp
qed

theorem step_preserves_speed_witness:
  "map abs2 (velocs_of (steps demo_loader 3 (([0], [(35, 10)], [(4, - 3)]), ()) ())) = [(4, 3)]
   \<and> map speed_of (velocs_of (steps demo_loader 3 (([0], [(35, 10)], [(4, - 3)]), ()) ())) = [5]"
proof -
  have len: "length [(35 :: real, 10 :: real)] = length [(4 :: real, - 3 :: real)]" by simp
  have s: "sqrt (25 :: real) = 5" using real_sqrt_abs [of 5] by simp
  show ?thesis
    using step_preserves_speed [OF len, of demo_loader "[0]" "()" "()" 3]
    by (simp add: abs2_def speed_of_def s)
qed

section \<open>Sequences\<close>

text \<open>
  C3. For a loader whose \<open>seq_len\<close> is not negative and every key, \<open>build_seq\<close> returns
  \<open>seq_len\<close> frames, and frame \<open>i\<close> (from 0) is the frame that \<open>step\<close>, called with the
  null action, returns on the carry reached after \<open>i\<close> steps from the carry of \<open>reset\<close>:
  the rendering of the state after \<open>i + 1\<close> steps. The frame \<open>reset\<close> renders is dropped;
  the first frame of the output is the one after one step.
\<close>

theorem build_seq_frames:
  assumes "0 \<le> seq_len L"
  shows "int (length (build_seq R L key)) = seq_len L
    \<and> (\<forall>i < length (build_seq R L key).
          build_seq R L key ! i
            = fst (snd (step L (steps L i (fst (reset R L key)) (None :: unit option)) (None :: unit option)))
        \<and> build_seq R L key ! i
            = get_obsv L (fst (steps L (Suc i) (fst (reset R L key)) (None :: unit option))))"
proof -
  let ?init = "fst (reset R L key)"
  let ?n = "nat (seq_len L)"
  have len: "length (build_seq R L key) = ?n"
    by (simp add: build_seq_unfold scan_length)
  have nth: "build_seq R L key ! i = fst (snd (step L (steps L i ?init (None :: unit option)) (None :: unit option)))"
    if "i < ?n" for i
    using scan_nth [OF that, of "scan_func L" ?init None]
    by (simp add: build_seq_unfold scan_func_fst scan_func_snd steps_def)
  have nxt: "fst (snd (step L (steps L i ?init (None :: unit option)) (None :: unit option)))
       = get_obsv L (fst (steps L (Suc i) ?init (None :: unit option)))" for i
    by (simp add: step_frame steps_def)
  show ?thesis
    using assms len nth nxt by simp
qed

theorem build_seq_frames_witness:
  "0 \<le> seq_len demo_loader
   \<and> int (length (build_seq zero_rng demo_loader 0)) = 5
   \<and> build_seq zero_rng demo_loader 0 ! 0
       = fst (snd (step demo_loader (fst (reset zero_rng demo_loader 0)) (None :: unit option)))"
proof -
  have h: "0 \<le> seq_len demo_loader" by (simp add: demo_loader_def)
  have s: "seq_len demo_loader = 5" by (simp add: demo_loader_def)
  note t = build_seq_frames [OF h, of zero_rng 0]
  have len: "int (length (build_seq zero_rng demo_loader 0)) = 5"
    using t by (simp add: s)
  then have "0 < length (build_seq zero_rng demo_loader 0)" by simp
  then have "build_seq zero_rng demo_loader 0 ! 0
       = fst (snd (step demo_loader (steps demo_loader 0 (fst (reset zero_rng demo_loader 0)) (None :: unit option)) (None :: unit option)))"
    using t by blast
  then show ?thesis
    using h len by (simp add: steps_def)
qed

section \<open>Construction\<close>

text \<open>
  C2, as the code has it. The constructor validates nothing: for every sprite
  collection, also an empty one, every \<open>seq_len\<close> and every number of digits, also
  non-positive ones, it returns a loader that stores the arguments as they are; its only
  error is the attribute error on a missing collection.
\<close>

theorem init_accepts_any_configuration:
  "JaxMNISTLoader (Some im) sl n =
     Inr \<lparr> width = 64, height = 64, mnist_width = 28, mnist_height = 28, lims = (36, 36),
           images = im, num_images = int (length im), seq_len = sl, nums_per_image = n \<rparr>
   \<and> JaxMNISTLoader None sl n = Inl AttributeError"
  by (simp add: JaxMNISTLoader_def)

text \<open>
  C2 as stated fails: an empty sprite collection with \<open>seq_len = -1\<close> and no digit
  is constructed without an error.
\<close>

theorem init_bad_configuration_counterexample:
  "JaxMNISTLoader (Some []) (- 1) 0 =
     Inr \<lparr> width = 64, height = 64, mnist_width = 28, mnist_height = 28, lims = (36, 36),
           images = [], num_images = 0, seq_len = - 1, nums_per_image = 0 \<rparr>"
  by (simp add: JaxMNISTLoader_def)

section \<open>Initial state\<close>

text \<open>
  C4, as the code has it. For a generator that keeps the documented ranges, a loader
  built by the constructor from a non-empty sprite collection and \<open>n \<ge> 0\<close> digits,
  \<open>reset\<close> splits the key four times, each split taken from the first key of the one
  before, and draws from the second keys, in this order: \<open>n\<close> headings
  \<open>pi * (2 u - 1)\<close> with \<open>u\<close> in \<open>[0, 1)\<close>, which lie in \<open>[-pi, pi)\<close>; \<open>n\<close> sprite indices in
  \<open>[0, num_images)\<close>; \<open>n\<close> integer speeds, drawn in \<open>[0, 5)\<close> and offset by 2, which lie in
  \<open>[2, 7)\<close>; \<open>n\<close> positions with each axis in \<open>[0, canvas_dim - sprite_dim]\<close>. The
  velocity of digit \<open>i\<close> is \<open>(speed * cos heading, speed * sin heading)\<close>, and the key
  returned is the first key of the fourth split.
\<close>

theorem reset_draws:
  assumes R: "rng_ok R"
    and L: "JaxMNISTLoader (Some im) sl n = Inr L"
    and im: "im \<noteq> []"
    and n: "0 \<le> n"
  shows "let k1 = random_split R key;
             k2 = random_split R (fst k1);
             k3 = random_split R (fst k2);
             k4 = random_split R (fst k3);
             direcs = reset_direcs R L key;
             speeds = reset_speeds R L key;
             es = fst (reset R L key)
         in snd es = fst k4
          \<and> direcs = map (\<lambda>u. pi * (u * 2 - 1)) (random_uniform R (snd k1) (nat n))
          \<and> indexes_of es = random_randint R (snd k2) (nat n) 0 (int (length im))
          \<and> speeds = map (\<lambda>s. s + 2) (random_randint R (snd k3) (nat n) 0 5)
          \<and> positions_of es =
              random_uniform2 R (snd k4) (nat n)
                (real_of_int (width L - mnist_width L), real_of_int (height L - mnist_height L))
          \<and> int (length direcs) = n \<and> int (length (indexes_of es)) = n
          \<and> int (length speeds) = n \<and> int (length (positions_of es)) = n
          \<and> int (length (velocs_of es)) = n
          \<and> (\<forall>d \<in> set direcs. - pi \<le> d \<and> d < pi)
          \<and> (\<forall>i \<in> set (indexes_of es). 0 \<le> i \<and> i < num_images L)
          \<and> (\<forall>s \<in> set speeds. 2 \<le> s \<and> s < 7)
          \<and> (\<forall>p \<in> set (positions_of es).
                0 \<le> fst p \<and> fst p \<le> real_of_int (width L - mnist_width L)
              \<and> 0 \<le> snd p \<and> snd p \<le> real_of_int (height L - mnist_height L))
          \<and> (\<forall>i < nat n. velocs_of es ! i =
                (real_of_int (speeds ! i) * cos (direcs ! i),
                 real_of_int (speeds ! i) * sin (direcs ! i)))"
proof -
  have Lf: "nums_per_image L = n" "num_images L = int (length im)" "lims L = (36, 36)"
    "width L - mnist_width L = 36" "height L - mnist_height L = 36"
    using L by (auto simp: JaxMNISTLoader_def)
  have ni: "0 < int (length im)" using im by simp
  have split_num: "\<And>k m. length (random_split_num R k m) = m"
    and uni: "\<And>k m. length (random_uniform R k m) = m"
    and uni_r: "\<And>k m u. u \<in> set (random_uniform R k m) \<Longrightarrow> 0 \<le> u \<and> u < 1"
    and uni2: "\<And>k m hx hy. length (random_uniform2 R k m (hx, hy)) = m"
    and uni2_r: "\<And>k m hx hy p. 0 < hx \<Longrightarrow> 0 < hy \<Longrightarrow> p \<in> set (random_uniform2 R k m (hx, hy))
                  \<Longrightarrow> 0 \<le> fst p \<and> fst p < hx \<and> 0 \<le> snd p \<and> snd p < hy"
    and ri: "\<And>k m lo hi. length (random_randint R k m lo hi) = m"
    and ri_r: "\<And>k m lo hi x. lo < hi \<Longrightarrow> x \<in> set (random_randint R k m lo hi) \<Longrightarrow> lo \<le> x \<and> x < hi"
    using R unfolding rng_ok_def by blast+
  let ?k1 = "random_split R key"
  let ?k2 = "random_split R (fst ?k1)"
  let ?k3 = "random_split R (fst ?k2)"
  let ?k4 = "random_split R (fst ?k3)"
  let ?direcs = "reset_direcs R L key"
  let ?speeds = "reset_speeds R L key"
  let ?es = "reset_priv R L key"
  have key: "snd ?es = fst ?k4" by (simp add: reset_priv_unfold)
  have d: "?direcs = map (\<lambda>u. pi * (u * 2 - 1)) (random_uniform R (snd ?k1) (nat n))"
    by (simp add: reset_direcs_def Lf)
  have ix: "indexes_of ?es = random_randint R (snd ?k2) (nat n) 0 (int (length im))"
    by (simp add: reset_priv_unfold indexes_of_def Lf)
  have sp: "?speeds = map (\<lambda>s. s + 2) (random_randint R (snd ?k3) (nat n) 0 5)"
    by (simp add: reset_speeds_def Lf)
  have ps: "positions_of ?es = random_uniform2 R (snd ?k4) (nat n) (36, 36)"
    by (simp add: reset_priv_unfold positions_of_def Lf)
  have vs: "velocs_of ?es =
      map (\<lambda>(direc, speed). (real_of_int speed * cos direc, real_of_int speed * sin direc))
        (zip ?direcs ?speeds)"
    by (simp add: reset_priv_unfold velocs_of_def)
  have ld: "int (length ?direcs) = n" using n by (simp add: d uni)
  have li: "int (length (indexes_of ?es)) = n" using n by (simp add: ix ri)
  have ls: "int (length ?speeds) = n" using n by (simp add: sp ri)
  have lp: "int (length (positions_of ?es)) = n" using n by (simp add: ps uni2)
  have lv: "int (length (velocs_of ?es)) = n" using ld ls by (simp add: vs)
  have rd: "\<forall>d \<in> set ?direcs. - pi \<le> d \<and> d < pi"
    unfolding d using uni_r direc_range by auto
  have rix: "\<forall>i \<in> set (indexes_of ?es). 0 \<le> i \<and> i < num_images L"
    unfolding ix Lf using ri_r [OF ni] by blast
  have rsp: "\<forall>s \<in> set ?speeds. 2 \<le> s \<and> s < 7"
  proof
    fix s assume "s \<in> set ?speeds"
    then obtain r where r: "r \<in> set (random_randint R (snd ?k3) (nat n) 0 5)" and s: "s = r + 2"
      unfolding sp by auto
    have "0 \<le> r \<and> r < 5" using ri_r [of 0 5, OF _ r] by simp
    then show "2 \<le> s \<and> s < 7" using s by simp
  qed
  have rps: "\<forall>p \<in> set (positions_of ?es). 0 \<le> fst p \<and> fst p \<le> 36 \<and> 0 \<le> snd p \<and> snd p \<le> 36"
  proof
    fix p assume "p \<in> set (positions_of ?es)"
    then have "p \<in> set (random_uniform2 R (snd ?k4) (nat n) (36, 36))" by (simp only: ps)
    from uni2_r [OF _ _ this] show "0 \<le> fst p \<and> fst p \<le> 36 \<and> 0 \<le> snd p \<and> snd p \<le> 36"
      by simp
  qed
  have vn: "\<forall>i < nat n. velocs_of ?es ! i =
                (real_of_int (?speeds ! i) * cos (?direcs ! i),
                 real_of_int (?speeds ! i) * sin (?direcs ! i))"
    using ld ls by (simp add: vs)
  show ?thesis
    unfolding Let_def reset_fst
    using key d ix sp ps ld li ls lp lv rd rix rsp rps vn by (simp only: Lf of_int_numeral)
qed

theorem reset_draws_witness:
  "rng_ok zero_rng
   \<and> JaxMNISTLoader (Some demo_images) 5 2 = Inr demo_loader
   \<and> demo_images \<noteq> []
   \<and> snd (fst (reset zero_rng demo_loader 0)) = 15
   \<and> reset_speeds zero_rng demo_loader 0 = [2, 2]
   \<and> velocs_of (fst (reset zero_rng demo_loader 0)) ! 0 = (- 2, 0)"
proof -
  have im: "demo_images \<noteq> []" by (simp add: demo_images_def)
  have n: "(0 :: int) \<le> 2" by simp
  have sp: "reset_speeds zero_rng demo_loader 0 = [2, 2]"
    by (simp add: reset_speeds_def zero_rng_def demo_loader_def numeral_2_eq_2)
  have dr: "reset_direcs zero_rng demo_loader 0 = [- pi, - pi]"
    by (simp add: reset_direcs_def zero_rng_def demo_loader_def numeral_2_eq_2)
  have ks: "fst (random_split zero_rng (fst (random_split zero_rng
              (fst (random_split zero_rng (fst (random_split zero_rng 0))))))) = 15"
    by (simp add: zero_rng_def)
  note t = reset_draws [OF rng_ok_zero_rng demo_loader_init im n, of 0, unfolded Let_def]
  have k: "snd (fst (reset zero_rng demo_loader 0)) = 15"
    using t ks by simp
  have "\<forall>i < nat 2. velocs_of (fst (reset zero_rng demo_loader 0)) ! i =
      (real_of_int (reset_speeds zero_rng demo_loader 0 ! i)
         * cos (reset_direcs zero_rng demo_loader 0 ! i),
       real_of_int (reset_speeds zero_rng demo_loader 0 ! i)
         * sin (reset_direcs zero_rng demo_loader 0 ! i))"
    using t by blast
  then have v: "velocs_of (fst (reset zero_rng demo_loader 0)) ! 0 = (- 2, 0)"
    by (simp add: sp dr)
  show ?thesis
    using rng_ok_zero_rng demo_loader_init im k sp v by simp
qed

text \<open>
  C4 as stated fails at the lower end of the heading range: a uniform draw of 0 gives the
  heading \<open>-pi\<close>, which is not in \<open>(-pi, pi]\<close>.
\<close>

theorem reset_heading_counterexample:
  "rng_ok zero_rng
   \<and> hd (reset_direcs zero_rng demo_loader 0) = - pi
   \<and> \<not> (- pi < hd (reset_direcs zero_rng demo_loader 0)
        \<and> hd (reset_direcs zero_rng demo_loader 0) \<le> pi)"
proof -
  have dr: "reset_direcs zero_rng demo_loader 0 = [- pi, - pi]"
    by (simp add: reset_direcs_def zero_rng_def demo_loader_def numeral_2_eq_2)
  show ?thesis using rng_ok_zero_rng by (simp add: dr)
qed

section \<open>Rendering\<close>

text \<open>
  C5. For a loader built by the constructor from a non-empty collection of sprites of the
  declared size and a digit at any real position, the sprite is written at the position
  truncated to integers and clamped per axis to \<open>[0, canvas_dim - sprite_dim]\<close>, so the
  whole window lies on the canvas; the canvas of the digit is the sprite inside the
  window and zero elsewhere; the rendered frame has the shape of the canvas and each of
  its nonzero pixels lies in the window of one of the digits.
\<close>

theorem sprites_stay_on_canvas:
  assumes L: "JaxMNISTLoader (Some im) sl n = Inr L"
    and im: "im \<noteq> []"
    and sh: "\<forall>s \<in> set im. has_shape (nat (mnist_width L)) (nat (mnist_height L)) s"
  shows "fst (canvas_offset L p) = min (width L - mnist_width L) (max 0 (astype_int (fst p)))
    \<and> snd (canvas_offset L p) = min (height L - mnist_height L) (max 0 (astype_int (snd p)))
    \<and> 0 \<le> fst (canvas_offset L p) \<and> fst (canvas_offset L p) + mnist_width L \<le> width L
    \<and> 0 \<le> snd (canvas_offset L p) \<and> snd (canvas_offset L p) + mnist_height L \<le> height L
    \<and> has_shape 64 64 (build_canvas L idx p)
    \<and> (\<forall>i < 64. \<forall>j < 64. build_canvas L idx p ! i ! j =
          (if in_window L p i j
           then getitem im idx ! (i - nat (fst (canvas_offset L p)))
                               ! (j - nat (snd (canvas_offset L p)))
           else 0))
    \<and> has_shape 64 64 (get_obsv L (indexes, positions, velocs))
    \<and> (\<forall>i < 64. \<forall>j < 64. get_obsv L (indexes, positions, velocs) ! i ! j \<noteq> 0 \<longrightarrow>
          (\<exists>(d, q) \<in> set (zip indexes positions). in_window L q i j))"
proof -
  note f = loader_fields [OF L]
  have off: "fst (canvas_offset L p) = min (width L - mnist_width L) (max 0 (astype_int (fst p)))"
    "snd (canvas_offset L p) = min (height L - mnist_height L) (max 0 (astype_int (snd p)))"
    by (simp_all add: canvas_offset_fst canvas_offset_snd f)
  have rng: "0 \<le> fst (canvas_offset L p)" "fst (canvas_offset L p) + mnist_width L \<le> width L"
    "0 \<le> snd (canvas_offset L p)" "snd (canvas_offset L p) + mnist_height L \<le> height L"
    by (simp_all add: canvas_offset_fst canvas_offset_snd f)
  have s1: "has_shape 64 64 (build_canvas L idx p)"
    using has_shape_build_canvas [of L idx p] by (simp add: f)
  have px: "\<forall>i < 64. \<forall>j < 64. build_canvas L idx p ! i ! j =
          (if in_window L p i j
           then getitem im idx ! (i - nat (fst (canvas_offset L p)))
                               ! (j - nat (snd (canvas_offset L p)))
           else 0)"
    using build_canvas_nth [OF L im sh] by blast
  have s2: "has_shape 64 64 (get_obsv L (indexes, positions, velocs))"
    using has_shape_get_obsv [of L "(indexes, positions, velocs)"] by (simp add: f)
  have nz: "\<exists>(d, q) \<in> set (zip indexes positions). in_window L q i j"
    if i: "i < 64" and j: "j < 64"
      and v: "get_obsv L (indexes, positions, velocs) ! i ! j \<noteq> 0" for i j
  proof -
    have "summed_intensity L (indexes, positions, velocs) i j \<noteq> 0"
      using v get_obsv_nth [of i L j "(indexes, positions, velocs)"] i j
      by (auto simp: f split: if_splits)
    then obtain x where x: "x \<in> set (map (\<lambda>(idx, p). real (unat (build_canvas L idx p ! i ! j)))
                    (zip indexes positions))" and "x \<noteq> 0"
      unfolding summed_intensity_def using sum_list_nonzero by fastforce
    then obtain d q where dq: "(d, q) \<in> set (zip indexes positions)"
      and "build_canvas L d q ! i ! j \<noteq> 0"
      by (auto simp: unsigned_eq_0_iff)
    then have "in_window L q i j"
      using build_canvas_nth [OF L im sh i j, of d q] by (auto split: if_splits)
    then show ?thesis using dq by blast
  qed
  have nz': "\<forall>i < 64. \<forall>j < 64. get_obsv L (indexes, positions, velocs) ! i ! j \<noteq> 0 \<longrightarrow>
          (\<exists>(d, q) \<in> set (zip indexes positions). in_window L q i j)"
    using nz by blast
  show ?thesis
    by (intro conjI; fact)
qed

theorem sprites_stay_on_canvas_witness:
  "JaxMNISTLoader (Some demo_images) 5 2 = Inr demo_loader
   \<and> demo_images \<noteq> []
   \<and> canvas_offset demo_loader (201 / 2, - (15 / 2)) = (36, 0)
   \<and> build_canvas demo_loader 0 (201 / 2, - (15 / 2)) ! 63 ! 27 = 200
   \<and> build_canvas demo_loader 0 (201 / 2, - (15 / 2)) ! 35 ! 27 = 0"
proof -
  let ?p = "(201 / 2, - (15 / 2)) :: vec2"
  note t = sprites_stay_on_canvas [OF demo_loader_init demo_images_nonempty demo_images_shape,
      of ?p 0 "[]" "[]" "[]"]
  have off: "canvas_offset demo_loader ?p = (36, 0)"
    by (simp add: canvas_offset_def astype_int_def demo_loader_def Let_def)
  have px: "\<forall>i < 64. \<forall>j < 64. build_canvas demo_loader 0 ?p ! i ! j =
          (if in_window demo_loader ?p i j
           then getitem demo_images 0 ! (i - nat (fst (canvas_offset demo_loader ?p)))
                               ! (j - nat (snd (canvas_offset demo_loader ?p)))
           else 0)"
    using t by blast
  have a: "build_canvas demo_loader 0 ?p ! 63 ! 27 = 200"
    using px [rule_format, of 63 27]
    by (simp add: off in_window_def loader_fields [OF demo_loader_init] demo_sprite_nth)
  have b: "build_canvas demo_loader 0 ?p ! 35 ! 27 = 0"
    using px [rule_format, of 35 27]
    by (simp add: off in_window_def loader_fields [OF demo_loader_init])
  show ?thesis
    using demo_loader_init demo_images_nonempty off a b by simp
qed

text \<open>
  C6. The rendered frame is the pixelwise sum of the canvases of the digits, clamped to
  at most 255 and divided by 255: a pixel whose summed intensity exceeds 255 is rendered
  as 1, and every value of the frame lies in \<open>[0, 1]\<close>.
\<close>

theorem get_obsv_saturates:
  assumes "i < nat (width L)" and "j < nat (height L)"
  shows "sum_canvases L st ! i ! j = summed_intensity L st i j
    \<and> get_obsv L st ! i ! j =
        (if summed_intensity L st i j > 255 then 255 else summed_intensity L st i j) / 255
    \<and> (summed_intensity L st i j > 255 \<longrightarrow> get_obsv L st ! i ! j = 1)
    \<and> 0 \<le> get_obsv L st ! i ! j \<and> get_obsv L st ! i ! j \<le> 1
    \<and> has_shape (nat (width L)) (nat (height L)) (get_obsv L st)"
  using assms summed_intensity_nonneg [of L st i j]
  by (simp add: sum_canvases_nth get_obsv_nth has_shape_get_obsv)

theorem get_obsv_saturates_witness:
  "0 < nat (width demo_loader) \<and> 0 < nat (height demo_loader)
   \<and> summed_intensity demo_loader ([0, 0], [(0, 0), (0, 0)], []) 0 0 = 400
   \<and> get_obsv demo_loader ([0, 0], [(0, 0), (0, 0)], []) ! 0 ! 0 = 1"
proof -
  have w: "0 < nat (width demo_loader)" and h: "0 < nat (height demo_loader)"
    by (simp_all add: demo_loader_def)
  have s: "summed_intensity demo_loader ([0, 0], [(0, 0), (0, 0)], []) 0 0 = 400"
    using demo_canvas_origin by (simp add: summed_intensity_def)
  show ?thesis
    using get_obsv_saturates [OF w h, of "([0, 0], [(0, 0), (0, 0)], [])"] w h s by simp
qed

section \<open>Batches\<close>

text \<open>
  C7. For a generator whose \<open>split\<close> returns as many keys as it is asked for, every batch
  the batch generator yields has an image of shape \<open>(batch_size, seq_len, 64, 64, 1)\<close>, an
  action array of shape \<open>(batch_size, seq_len, 2)\<close> that is zero everywhere, and an
  \<open>is_first\<close> array of shape \<open>(batch_size, seq_len)\<close> whose row 0 is true at every
  timestep and whose other rows are false at every timestep; the two tags are the same
  arrays in every batch.
\<close>

theorem batch_shape:
  assumes R: "rng_ok R"
    and J: "jaxMMNIST R mnist train bs ns npi sl = Inr s"
  shows "has_shape5 (nat bs) (nat sl) 64 64 1 (batch_image (s !! m))
    \<and> int (length (batch_image (s !! m))) = bs
    \<and> batch_action (s !! m) = replicate (nat bs) (replicate (nat sl) [0, 0])
    \<and> int (length (batch_is_first (s !! m))) = bs
    \<and> (\<forall>b < nat bs. batch_is_first (s !! m) ! b = replicate (nat sl) (b = 0))
    \<and> batch_action (s !! m) = batch_action (s !! 0)
    \<and> batch_is_first (s !! m) = batch_is_first (s !! 0)"
proof -
  from jaxMMNIST_Inr [OF J] obtain L im where bs: "0 \<le> bs" and sl: "0 \<le> sl"
    and L: "JaxMNISTLoader (Some im) sl npi = Inr L"
    and s: "s = yield_loop R L bs
                 (replicate (nat bs) (replicate (nat sl) [0, 0]))
                 ((replicate (nat bs) (replicate (nat sl) False))[0 := replicate (nat sl) True])
                 (random_key R 38)"
    by blast
  note f = loader_fields [OF L]
  have split_num: "\<And>k n. length (random_split_num R k n) = n"
    using R unfolding rng_ok_def by blast
  have act: "batch_action (s !! m) = replicate (nat bs) (replicate (nat sl) [0, 0])" for m
    by (simp add: s yield_loop_snth loop_body_batch)
  have isf: "batch_is_first (s !! m)
      = (replicate (nat bs) (replicate (nat sl) False))[0 := replicate (nat sl) True]" for m
    by (simp add: s yield_loop_snth loop_body_batch)
  obtain k where img: "batch_image (s !! m)
      = add_channel (map (build_seq R L) (random_split_num R k (nat bs)))"
    by (simp add: s yield_loop_snth loop_body_batch)
  have sh: "has_shape5 (nat bs) (nat sl) 64 64 1 (batch_image (s !! m))"
    unfolding img
  proof (rule has_shape5_add_channel)
    show "length (map (build_seq R L) (random_split_num R k (nat bs))) = nat bs"
      by (simp add: split_num)
  next
    fix sq assume "sq \<in> set (map (build_seq R L) (random_split_num R k (nat bs)))"
    then show "length sq = nat sl"
      by (auto simp: build_seq_length f)
  next
    fix sq fr
    assume "sq \<in> set (map (build_seq R L) (random_split_num R k (nat bs)))"
      and "fr \<in> set sq"
    then obtain key where "fr \<in> set (build_seq R L key)" by auto
    from build_seq_frame_shape [OF this] show "has_shape 64 64 fr"
      by (simp add: f)
  qed
  then have len: "int (length (batch_image (s !! m))) = bs"
    using bs by (simp add: has_shape5_def)
  have l2: "int (length (batch_is_first (s !! m))) = bs"
    using bs by (simp add: isf)
  have rows: "\<forall>b < nat bs. batch_is_first (s !! m) ! b = replicate (nat sl) (b = 0)"
    by (simp add: isf nth_list_update)
  have a0: "batch_action (s !! m) = batch_action (s !! 0)"
    by (simp only: act)
  have f0: "batch_is_first (s !! m) = batch_is_first (s !! 0)"
    by (simp only: isf)
  note act' = act [of m]
  show ?thesis
    by (intro conjI; fact)
qed

theorem batch_shape_witness:
  "rng_ok zero_rng
   \<and> jaxMMNIST zero_rng demo_mnist True 2 1 2 5 = Inr demo_batches
   \<and> length (batch_image (demo_batches !! 3)) = 2
   \<and> batch_action (demo_batches !! 3) ! 1 ! 4 = [0, 0]
   \<and> batch_is_first (demo_batches !! 3) ! 0 ! 4 = True
   \<and> batch_is_first (demo_batches !! 3) ! 1 ! 4 = False"
proof -
  note t = batch_shape [OF rng_ok_zero_rng demo_jaxMMNIST, of 3]
  have len: "length (batch_image (demo_batches !! 3)) = 2"
    using t by simp
  have act: "batch_action (demo_batches !! 3) ! 1 ! 4 = [0, 0]"
    using t by simp
  have rows: "\<forall>b < nat 2. batch_is_first (demo_batches !! 3) ! b = replicate (nat 5) (b = 0)"
    using t by blast
  have r0: "batch_is_first (demo_batches !! 3) ! 0 ! 4 = True"
    using rows [rule_format, of 0] by simp
  have r1: "batch_is_first (demo_batches !! 3) ! 1 ! 4 = False"
    using rows [rule_format, of 1] by simp
  show ?thesis
    using rng_ok_zero_rng demo_jaxMMNIST len act r0 r1 by simp
qed

end
